theory Spec2Isabelle
  imports Complex_Main "HOL-Library.List_Lexorder" "HOL-Library.Multiset"
begin

section \<open>The plugin browser: data model\<close>

text \<open>
  The component \<^verbatim>\<open>PluginBrowser\<close> keeps its state in React hooks and reacts to
  user events, to the settling of the one list fetch issued on mount, and to the settling
  of the write requests issued by \<^verbatim>\<open>handleToggle\<close>. The model is a state record
  and one function per handler; an asynchronous handler is split at its \<^verbatim>\<open>await\<close>
  into the part that runs at the call and the part that runs when the request settles.
\<close>

text \<open>The interface \<^verbatim>\<open>Plugin\<close>; the field \<^verbatim>\<open>id\<close> is named \<open>pid\<close> here
  (\<open>id\<close> is the identity function of HOL).\<close>

record Plugin =
  pid :: string
  name :: string
  description :: string
  enabled :: bool
  operations :: "string list"
  utilities :: "string list"

datatype ViewMode = Icons | ListMode | Details

text \<open>What a request can come back with: \<^verbatim>\<open>fetch\<close> rejects with an error carrying a
  message, or resolves with a response (\<^verbatim>\<open>ok\<close>, \<^verbatim>\<open>statusText\<close>) whose body
  either fails to parse or is an object whose field \<^verbatim>\<open>plugins\<close> may be absent.\<close>

datatype JsonBody = BodyError string | BodyData "Plugin list option"

datatype FetchOutcome = Rejected string | Response bool string JsonBody

datatype WriteOutcome = WriteRejected string | WriteResponse bool string

text \<open>\<^verbatim>\<open>fetchPlugins\<close>: the error message on the left, the list on the right.\<close>

fun fetchPlugins :: "FetchOutcome \<Rightarrow> string + Plugin list" where
  "fetchPlugins (Rejected msg) = Inl msg"
| "fetchPlugins (Response ok statusText body) =
     (if \<not> ok then Inl (''Failed to fetch plugins: '' @ statusText)
      else case body of
             BodyError msg \<Rightarrow> Inl msg
           | BodyData None \<Rightarrow> Inr []
           | BodyData (Some ps) \<Rightarrow> Inr ps)"

text \<open>\<^verbatim>\<open>setPluginEnabled\<close>: the request names the action and the plugin; only the
  transport status decides between success and failure.\<close>

fun setPluginEnabled :: "string \<Rightarrow> bool \<Rightarrow> WriteOutcome \<Rightarrow> string + unit" where
  "setPluginEnabled pluginId en (WriteRejected msg) = Inl msg"
| "setPluginEnabled pluginId en (WriteResponse ok statusText) =
     (let action = (if en then ''enable_plugin'' else ''disable_plugin'')
      in if \<not> ok then Inl (''Failed to '' @ action @ '': '' @ statusText) else Inr ())"

text \<open>A call of \<^verbatim>\<open>handleToggle\<close> that is suspended at its \<^verbatim>\<open>await\<close>: the
  argument \<^verbatim>\<open>plugin\<close> and the value of \<^verbatim>\<open>detailPlugin\<close> that the callback
  closed over when it was created (the dependency list of its \<^verbatim>\<open>useCallback\<close> is
  \<^verbatim>\<open>[detailPlugin]\<close>, so this is the value at the render in which the call was made).\<close>

record ToggleCall =
  call_plugin :: Plugin
  call_detail :: "Plugin option"

text \<open>The hooks of \<^verbatim>\<open>PluginBrowser\<close>, followed by what lives outside React state: the
  flag \<^verbatim>\<open>cancelled\<close> of the mount effect (set by its cleanup, at unmount), whether the
  fetch issued on mount is still unsettled, the suspended calls of \<^verbatim>\<open>handleToggle\<close>,
  the lines written by \<^verbatim>\<open>console.error\<close> and the plugins handed to
  \<^verbatim>\<open>handleOpen\<close>. The hook \<^verbatim>\<open>iconErrors\<close> is left out: no handler modelled here
  reads it.\<close>

record Browser =
  plugins :: "Plugin list"
  loading :: bool
  error :: "string option"
  selectedId :: "string option"
  viewMode :: ViewMode
  updating :: "string option"
  detailPlugin :: "Plugin option"
  cancelled :: bool
  loadPending :: bool
  inflight :: "ToggleCall list"
  console :: "string list"
  opened :: "Plugin list"

definition mount :: "ViewMode \<Rightarrow> Browser" where
  "mount initialView =
     \<lparr> plugins = [], loading = True, error = None, selectedId = None,
       viewMode = initialView, updating = None, detailPlugin = None,
       cancelled = False, loadPending = True, inflight = [], console = [],
       opened = [] \<rparr>"

section \<open>Loading\<close>

text \<open>\<^verbatim>\<open>[...data].sort((a, b) => a.name.localeCompare(b.name))\<close>. The comparison
  \<^verbatim>\<open>localeCompare\<close> belongs to the platform and is a parameter \<open>cmp\<close> of the model
  (negative, zero or positive). \<^verbatim>\<open>Array.prototype.sort\<close> is stable; it is modelled
  as the stable insertion sort.\<close>

fun insert_by :: "('a \<Rightarrow> 'a \<Rightarrow> int) \<Rightarrow> 'a \<Rightarrow> 'a list \<Rightarrow> 'a list" where
  "insert_by c x [] = [x]"
| "insert_by c x (y # ys) = (if c x y \<le> 0 then x # y # ys else y # insert_by c x ys)"

definition sort_by :: "('a \<Rightarrow> 'a \<Rightarrow> int) \<Rightarrow> 'a list \<Rightarrow> 'a list" where
  "sort_by c xs = foldr (insert_by c) xs []"

definition by_name :: "(string \<Rightarrow> string \<Rightarrow> int) \<Rightarrow> Plugin \<Rightarrow> Plugin \<Rightarrow> int" where
  "by_name cmp a b = cmp (name a) (name b)"

text \<open>The two callbacks of the mount effect, \<^verbatim>\<open>.then\<close> and \<^verbatim>\<open>.catch\<close>.\<close>

definition load_settled :: "(string \<Rightarrow> string \<Rightarrow> int) \<Rightarrow> FetchOutcome \<Rightarrow> Browser \<Rightarrow> Browser" where
  "load_settled cmp out s =
     (case fetchPlugins out of
        Inr data \<Rightarrow>
          (if \<not> cancelled s
           then s\<lparr> plugins := sort_by (by_name cmp) data, loading := False \<rparr>
           else s)
      | Inl msg \<Rightarrow>
          (if \<not> cancelled s
           then s\<lparr> error := Some msg, loading := False \<rparr>
           else s))"

text \<open>What the component renders: the tests \<^verbatim>\<open>if (loading)\<close>, \<^verbatim>\<open>if (error)\<close>
  (a string is truthy when it is not empty) and \<^verbatim>\<open>if (plugins.length === 0)\<close>, in
  the order of the source.\<close>

datatype Screen = LoadingScreen | ErrorScreen string | EmptyScreen | MainScreen

definition render :: "Browser \<Rightarrow> Screen" where
  "render s =
     (if loading s then LoadingScreen
      else case error s of
             Some (c # cs) \<Rightarrow> ErrorScreen (c # cs)
           | _ \<Rightarrow> (if length (plugins s) = 0 then EmptyScreen else MainScreen))"

section \<open>Selection, opening, toggling\<close>

definition handleSelect :: "Plugin \<Rightarrow> Browser \<Rightarrow> Browser" where
  "handleSelect plugin s = s\<lparr> selectedId := Some (pid plugin), detailPlugin := Some plugin \<rparr>"

definition handleOpen :: "Plugin \<Rightarrow> Browser \<Rightarrow> Browser" where
  "handleOpen plugin s = s\<lparr> opened := opened s @ [plugin] \<rparr>"

definition closeDetail :: "Browser \<Rightarrow> Browser" where
  "closeDetail s = s\<lparr> detailPlugin := None \<rparr>"

text \<open>\<^verbatim>\<open>handleToggle\<close> up to its \<^verbatim>\<open>await\<close>.\<close>

definition handleToggle_call :: "Plugin \<Rightarrow> Browser \<Rightarrow> Browser" where
  "handleToggle_call plugin s =
     s\<lparr> updating := Some (pid plugin),
        inflight := inflight s @ [\<lparr> call_plugin = plugin, call_detail = detailPlugin s \<rparr>] \<rparr>"

text \<open>The updater handed to \<^verbatim>\<open>setPlugins\<close>.\<close>

definition commit_enabled :: "string \<Rightarrow> bool \<Rightarrow> Plugin list \<Rightarrow> Plugin list" where
  "commit_enabled i newEnabled prev =
     map (\<lambda>p. if pid p = i then p\<lparr> enabled := newEnabled \<rparr> else p) prev"

text \<open>\<^verbatim>\<open>handleToggle\<close> after its \<^verbatim>\<open>await\<close>: the \<^verbatim>\<open>try\<close> body on success, the
  \<^verbatim>\<open>catch\<close> on failure, then the \<^verbatim>\<open>finally\<close>.\<close>

definition handleToggle_settled :: "ToggleCall \<Rightarrow> WriteOutcome \<Rightarrow> Browser \<Rightarrow> Browser" where
  "handleToggle_settled c out s =
     (let plugin = call_plugin c;
          newEnabled = (\<not> enabled plugin);
          s1 = (case setPluginEnabled (pid plugin) newEnabled out of
                  Inr _ \<Rightarrow>
                    (let s2 = s\<lparr> plugins := commit_enabled (pid plugin) newEnabled (plugins s) \<rparr>
                     in if (case call_detail c of None \<Rightarrow> False | Some d \<Rightarrow> pid d = pid plugin)
                        then s2\<lparr> detailPlugin := Some (plugin\<lparr> enabled := newEnabled \<rparr>) \<rparr>
                        else s2)
                | Inl err \<Rightarrow> s\<lparr> console := console s @ [''Failed to update plugin: '' @ err] \<rparr>)
      in s1\<lparr> updating := None \<rparr>)"

section \<open>Keyboard navigation\<close>

text \<open>\<^verbatim>\<open>findIndex\<close>: the first index whose element satisfies the test, or \<open>-1\<close>.\<close>

fun findIndex :: "('a \<Rightarrow> bool) \<Rightarrow> 'a list \<Rightarrow> int" where
  "findIndex P [] = - 1"
| "findIndex P (x # xs) =
     (if P x then 0 else (let r = findIndex P xs in if r = - 1 then - 1 else r + 1))"

text \<open>Reading \<^verbatim>\<open>plugins[i]\<close> and then a field of it: out of range the element is
  \<^verbatim>\<open>undefined\<close> and the field access throws a \<^verbatim>\<open>TypeError\<close>.\<close>

datatype exn = TypeError

definition element :: "'a list \<Rightarrow> int \<Rightarrow> exn + 'a" where
  "element xs i = (if 0 \<le> i \<and> i < int (length xs) then Inr (xs ! nat i) else Inl TypeError)"

text \<open>\<^verbatim>\<open>Math.ceil(a / b)\<close> and \<^verbatim>\<open>Math.floor(a / b)\<close> on integers: the
  quotient is taken in the reals and then rounded.\<close>

definition Math_ceil_quot :: "int \<Rightarrow> int \<Rightarrow> int" where
  "Math_ceil_quot a b = \<lceil>real_of_int a / real_of_int b\<rceil>"

definition Math_floor_quot :: "int \<Rightarrow> int \<Rightarrow> int" where
  "Math_floor_quot a b = \<lfloor>real_of_int a / real_of_int b\<rfloor>"

text \<open>The \<^verbatim>\<open>switch (e.key)\<close> of \<^verbatim>\<open>handleKeyDown\<close>: \<open>None\<close> is the
  \<^verbatim>\<open>default: return\<close>; otherwise the value of \<^verbatim>\<open>newIndex\<close> at the end of the
  switch and the state after the handlers called inside it.\<close>

definition key_switch :: "string \<Rightarrow> Browser \<Rightarrow> int \<Rightarrow> int \<Rightarrow> (exn + int \<times> Browser) option" where
  "key_switch key s currentIndex idx =
     (let n = int (length (plugins s));
          columns = (if viewMode s = Icons then 6 else 1);
          rows = Math_ceil_quot n columns;
          currentRow = Math_floor_quot idx columns;
          currentCol = idx mod columns
      in
      if key = ''ArrowRight'' then
        Some (Inr (if viewMode s = Icons then min (idx + 1) (n - 1) else idx, s))
      else if key = ''ArrowLeft'' then
        Some (Inr (if viewMode s = Icons then max (idx - 1) 0 else idx, s))
      else if key = ''ArrowDown'' then
        Some (Inr (if viewMode s = Icons
                   then (if currentRow < rows - 1
                         then min ((currentRow + 1) * columns + currentCol) (n - 1)
                         else idx)
                   else min (idx + 1) (n - 1), s))
      else if key = ''ArrowUp'' then
        Some (Inr (if viewMode s = Icons
                   then (if currentRow > 0
                         then (currentRow - 1) * columns + currentCol
                         else idx)
                   else max (idx - 1) 0, s))
      else if key = ''Home'' then Some (Inr (0, s))
      else if key = ''End'' then Some (Inr (n - 1, s))
      else if key = ''Enter'' then
        (if currentIndex \<ge> 0
         then (case element (plugins s) currentIndex of
                 Inl e \<Rightarrow> Some (Inl e)
               | Inr p \<Rightarrow> Some (Inr (idx, handleOpen p s)))
         else Some (Inr (idx, s)))
      else if key = ''Escape'' then
        Some (Inr (idx, if detailPlugin s \<noteq> None then closeDetail s else s))
      else None)"

definition handleKeyDown :: "string \<Rightarrow> Browser \<Rightarrow> exn + Browser" where
  "handleKeyDown key s =
     (if length (plugins s) = 0 then Inr s
      else
        let currentIndex = findIndex (\<lambda>p. Some (pid p) = selectedId s) (plugins s);
            idx = (if currentIndex = - 1 then 0 else currentIndex)
        in case key_switch key s currentIndex idx of
             None \<Rightarrow> Inr s
           | Some (Inl e) \<Rightarrow> Inl e
           | Some (Inr (newIndex, s1)) \<Rightarrow>
               (case element (plugins s) newIndex of
                  Inl e \<Rightarrow> Inl e
                | Inr p \<Rightarrow> Inr (s1\<lparr> selectedId := Some (pid p) \<rparr>)))"

section \<open>Events\<close>

text \<open>The handlers are reachable only through what is rendered: the main screen exists
  while the component is mounted and \<open>render\<close> gives \<open>MainScreen\<close>; the checkbox of a
  row exists in the details view and is disabled while \<^verbatim>\<open>updating === plugin.id\<close>;
  the button of the detail panel is disabled under the same test on the bound plugin.
  A settled request runs its continuation whatever is rendered.\<close>

datatype Event =
    LoadSettled FetchOutcome
  | Unmount
  | Click nat
  | DoubleClick nat
  | KeyDown string
  | ViewButton ViewMode
  | Checkbox nat
  | PanelToggle
  | PanelClose
  | WriteSettled nat WriteOutcome

definition interactive :: "Browser \<Rightarrow> bool" where
  "interactive s = (\<not> cancelled s \<and> render s = MainScreen)"

definition drop_nth :: "nat \<Rightarrow> 'a list \<Rightarrow> 'a list" where
  "drop_nth k xs = take k xs @ drop (Suc k) xs"

fun step :: "(string \<Rightarrow> string \<Rightarrow> int) \<Rightarrow> Event \<Rightarrow> Browser \<Rightarrow> Browser" where
  "step cmp (LoadSettled out) s =
     (if loadPending s then load_settled cmp out (s\<lparr> loadPending := False \<rparr>) else s)"
| "step cmp Unmount s = s\<lparr> cancelled := True \<rparr>"
| "step cmp (Click i) s =
     (if interactive s \<and> i < length (plugins s) then handleSelect (plugins s ! i) s else s)"
| "step cmp (DoubleClick i) s =
     (if interactive s \<and> i < length (plugins s) then handleOpen (plugins s ! i) s else s)"
| "step cmp (KeyDown key) s =
     (if interactive s
      then (case handleKeyDown key s of Inr s' \<Rightarrow> s' | Inl e \<Rightarrow> s)
      else s)"
| "step cmp (ViewButton m) s = (if interactive s then s\<lparr> viewMode := m \<rparr> else s)"
| "step cmp (Checkbox i) s =
     (if interactive s \<and> viewMode s = Details \<and> i < length (plugins s)
         \<and> updating s \<noteq> Some (pid (plugins s ! i))
      then handleToggle_call (plugins s ! i) s else s)"
| "step cmp PanelToggle s =
     (case detailPlugin s of
        None \<Rightarrow> s
      | Some d \<Rightarrow>
          (if interactive s \<and> updating s \<noteq> Some (pid d) then handleToggle_call d s else s))"
| "step cmp PanelClose s =
     (if interactive s \<and> detailPlugin s \<noteq> None then closeDetail s else s)"
| "step cmp (WriteSettled k out) s =
     (if k < length (inflight s)
      then handleToggle_settled (inflight s ! k) out (s\<lparr> inflight := drop_nth k (inflight s) \<rparr>)
      else s)"

fun run :: "(string \<Rightarrow> string \<Rightarrow> int) \<Rightarrow> Event list \<Rightarrow> Browser \<Rightarrow> Browser" where
  "run cmp [] s = s"
| "run cmp (e # es) s = run cmp es (step cmp e s)"

section \<open>Reference definitions and predicates\<close>

text \<open>The keys \<^verbatim>\<open>handleKeyDown\<close> has a case for.\<close>

definition handled :: "string \<Rightarrow> bool" where
  "handled key = (key \<in> set [''ArrowRight'', ''ArrowLeft'', ''ArrowDown'', ''ArrowUp'',
                              ''Home'', ''End'', ''Enter'', ''Escape''])"

text \<open>A result of the switch is in order when it is not an exception and, if it gives an
  index, the index is one of the list and the state is the one before the switch or that
  state after \<open>handleOpen\<close> on a plugin of the list or after \<open>closeDetail\<close>.\<close>

definition switch_ok :: "Browser \<Rightarrow> (exn + int \<times> Browser) option \<Rightarrow> bool" where
  "switch_ok s r =
     (case r of
        None \<Rightarrow> True
      | Some (Inl e) \<Rightarrow> False
      | Some (Inr (j, s1)) \<Rightarrow>
          0 \<le> j \<and> j < int (length (plugins s))
          \<and> (s1 = s \<or> (\<exists>p \<in> set (plugins s). s1 = handleOpen p s) \<or> s1 = closeDetail s))"

text \<open>The specification's \<open>move\<close>, written from its words: the directions, the index of
  the selected id in the ordered ids (0 if not found), and the new index from
  \<open>rows = ceil(n/columns)\<close>, \<open>row = idx div columns\<close>, \<open>col = idx mod columns\<close>.\<close>

datatype Direction = MoveLeft | MoveRight | MoveUp | MoveDown | MoveHome | MoveEnd

fun key_of :: "Direction \<Rightarrow> string" where
  "key_of MoveLeft = ''ArrowLeft''"
| "key_of MoveRight = ''ArrowRight''"
| "key_of MoveUp = ''ArrowUp''"
| "key_of MoveDown = ''ArrowDown''"
| "key_of MoveHome = ''Home''"
| "key_of MoveEnd = ''End''"

definition index_ref :: "string option \<Rightarrow> string list \<Rightarrow> int" where
  "index_ref sel ids =
     (if sel \<in> Some ` set ids then int (length (takeWhile (\<lambda>i. Some i \<noteq> sel) ids)) else 0)"

definition move_ref :: "Direction \<Rightarrow> bool \<Rightarrow> int \<Rightarrow> int \<Rightarrow> int \<Rightarrow> int" where
  "move_ref d grid columns n idx =
     (let rows = \<lceil>real_of_int n / real_of_int columns\<rceil>;
          row = idx div columns;
          col = idx mod columns
      in case d of
           MoveLeft \<Rightarrow> (if grid then max (idx - 1) 0 else idx)
         | MoveRight \<Rightarrow> (if grid then min (idx + 1) (n - 1) else idx)
         | MoveUp \<Rightarrow>
             (if grid then (if row > 0 then (row - 1) * columns + col else idx)
              else max (idx - 1) 0)
         | MoveDown \<Rightarrow>
             (if grid then (if row < rows - 1 then min ((row + 1) * columns + col) (n - 1) else idx)
              else min (idx + 1) (n - 1))
         | MoveHome \<Rightarrow> 0
         | MoveEnd \<Rightarrow> n - 1)"

text \<open>Modelled from the spec: the platform's \<^verbatim>\<open>String.prototype.localeCompare\<close> is not
  part of the repository; the specification describes the sort key as case-insensitive
  lexicographic. This comparison folds the codes of ASCII upper case letters to those of the
  lower case letters and compares the lists of codes lexicographically.\<close>

definition fold_case :: "char \<Rightarrow> nat" where
  "fold_case c = (let k = of_char c in if 65 \<le> k \<and> k \<le> 90 then k + 32 else k)"

definition localeCompare_ci :: "string \<Rightarrow> string \<Rightarrow> int" where
  "localeCompare_ci a b =
     (let ka = map fold_case a; kb = map fold_case b
      in if ka < kb then - 1 else if ka = kb then 0 else 1)"

text \<open>Everything of a plugin record but its field \<^verbatim>\<open>enabled\<close>.\<close>

definition fixed_part :: "Plugin \<Rightarrow> string \<times> string \<times> string \<times> string list \<times> string list" where
  "fixed_part p = (pid p, name p, description p, operations p, utilities p)"

text \<open>The selection names a plugin of the list.\<close>

definition selection_valid :: "Browser \<Rightarrow> bool" where
  "selection_valid s = (\<exists>p \<in> set (plugins s). selectedId s = Some (pid p))"

text \<open>What holds in every state the component reaches from its mount: while the fetch is
  unsettled the component is loading; while it is loading, and once an error is recorded,
  the list is empty and no write is in flight; and the panel is open, or was open when a
  write still in flight was issued, only if the selection names a plugin of the list.\<close>

definition invariant :: "Browser \<Rightarrow> bool" where
  "invariant s =
     ((loadPending s \<longrightarrow> loading s)
      \<and> (loading s \<longrightarrow> plugins s = [] \<and> error s = None \<and> inflight s = [])
      \<and> (error s \<noteq> None \<longrightarrow> plugins s = [] \<and> inflight s = [] \<and> \<not> loadPending s)
      \<and> (detailPlugin s \<noteq> None \<longrightarrow> selection_valid s)
      \<and> (\<forall>c \<in> set (inflight s). call_detail c \<noteq> None \<longrightarrow> selection_valid s))"

text \<open>The plugins and states of the specification's scenarios.\<close>

definition pluginA :: Plugin where
  "pluginA = \<lparr> pid = ''a'', name = ''Alpha'', description = [], enabled = False,
               operations = [], utilities = [] \<rparr>"

definition pluginB :: Plugin where
  "pluginB = \<lparr> pid = ''b'', name = ''Beta'', description = [], enabled = False,
               operations = [], utilities = [] \<rparr>"

definition listed :: "FetchOutcome" where
  "listed = Response True ''OK'' (BodyData (Some [pluginB, pluginA]))"

definition written :: "WriteOutcome" where
  "written = WriteResponse True ''OK''"

definition loaded :: Browser where
  "loaded = step localeCompare_ci (LoadSettled listed) (mount Icons)"

definition selectedA :: Browser where
  "selectedA = step localeCompare_ci (Click 0) loaded"

definition detailsView :: Browser where
  "detailsView = step localeCompare_ci (ViewButton Details) loaded"

definition togglingAB :: Browser where
  "togglingAB = run localeCompare_ci [Checkbox 0, Checkbox 1] detailsView"

section \<open>Keyboard navigation: proofs\<close>

lemma Math_ceil_quot_eq: "Math_ceil_quot a b = - (- a div b)"
  by (simp add: Math_ceil_quot_def ceiling_divide_eq_div)

lemma Math_floor_quot_eq: "Math_floor_quot a b = a div b"
  by (simp add: Math_floor_quot_def floor_divide_of_int_eq)

lemma findIndex_range:
  "findIndex P xs = - 1 \<or> (0 \<le> findIndex P xs \<and> findIndex P xs < int (length xs))"
  by (induction xs) (auto simp: Let_def)

lemma grid_up: "(idx::int) div 6 > 0 \<Longrightarrow> (idx div 6 - 1) * 6 + idx mod 6 = idx - 6"
  by (simp add: algebra_simps) 

lemma grid_up2: "(idx::int) div 6 > 0 \<Longrightarrow> 6 \<le> idx"
  by presburger

lemma grid_down: "0 \<le> (idx::int) \<Longrightarrow> 0 \<le> (idx div 6 + 1) * 6 + idx mod 6"
  by (simp add: algebra_simps) 

lemma key_switch_ArrowRight:
  "key_switch ''ArrowRight'' s ci idx =
     Some (Inr (if viewMode s = Icons then min (idx + 1) (int (length (plugins s)) - 1) else idx, s))"
  by (simp add: key_switch_def)

lemma key_switch_ArrowLeft:
  "key_switch ''ArrowLeft'' s ci idx =
     Some (Inr (if viewMode s = Icons then max (idx - 1) 0 else idx, s))"
  by (simp add: key_switch_def)

lemma key_switch_ArrowDown:
  "key_switch ''ArrowDown'' s ci idx =
     Some (Inr (if viewMode s = Icons
                then (if idx div 6 < - (- int (length (plugins s)) div 6) - 1
                      then min ((idx div 6 + 1) * 6 + idx mod 6) (int (length (plugins s)) - 1)
                      else idx)
                else min (idx + 1) (int (length (plugins s)) - 1), s))"
  by (simp add: key_switch_def Math_ceil_quot_eq Math_floor_quot_eq)

lemma key_switch_ArrowUp:
  "key_switch ''ArrowUp'' s ci idx =
     Some (Inr (if viewMode s = Icons
                then (if idx div 6 > 0 then (idx div 6 - 1) * 6 + idx mod 6 else idx)
                else max (idx - 1) 0, s))"
  by (simp add: key_switch_def Math_ceil_quot_eq Math_floor_quot_eq)

lemma key_switch_Home: "key_switch ''Home'' s ci idx = Some (Inr (0, s))"
  by (simp add: key_switch_def)

lemma key_switch_End: "key_switch ''End'' s ci idx = Some (Inr (int (length (plugins s)) - 1, s))"
  by (simp add: key_switch_def)

lemma key_switch_Enter:
  "key_switch ''Enter'' s ci idx =
     (if ci \<ge> 0
      then (case element (plugins s) ci of
              Inl e \<Rightarrow> Some (Inl e)
            | Inr p \<Rightarrow> Some (Inr (idx, handleOpen p s)))
      else Some (Inr (idx, s)))"
  by (simp add: key_switch_def)

lemma key_switch_Escape:
  "key_switch ''Escape'' s ci idx =
     Some (Inr (idx, if detailPlugin s \<noteq> None then closeDetail s else s))"
  by (simp add: key_switch_def)

lemma handled_iff:
  "handled key \<longleftrightarrow> key = ''ArrowRight'' \<or> key = ''ArrowLeft'' \<or> key = ''ArrowDown''
     \<or> key = ''ArrowUp'' \<or> key = ''Home'' \<or> key = ''End'' \<or> key = ''Enter'' \<or> key = ''Escape''"
  unfolding handled_def by simp

lemma key_switch_default: "\<not> handled key \<Longrightarrow> key_switch key s ci idx = None"
  by (simp add: key_switch_def handled_def)

lemma key_switch_range:
  assumes "0 \<le> idx" "idx < int (length (plugins s))"
    and ci: "currentIndex = - 1 \<or> (0 \<le> currentIndex \<and> currentIndex < int (length (plugins s)))"
  shows "switch_ok s (key_switch key s currentIndex idx)"
proof -
  have up: "0 < idx div 6 \<Longrightarrow> 0 \<le> (idx div 6 - 1) * 6 + idx mod 6 \<and> (idx div 6 - 1) * 6 + idx mod 6 < int (length (plugins s))"
    using assms(2) grid_up [of idx] grid_up2 [of idx] by simp
  have down: "0 \<le> (idx div 6 + 1) * 6 + idx mod 6" using grid_down assms(1) by simp
  from ci have el: "currentIndex \<ge> 0 \<Longrightarrow>
      element (plugins s) currentIndex = Inr (plugins s ! nat currentIndex)
      \<and> plugins s ! nat currentIndex \<in> set (plugins s)"
    by (auto simp: element_def)
  show ?thesis
  proof (cases "handled key")
    case False
    then show ?thesis by (simp add: key_switch_default switch_ok_def)
  next
    case True
    then have "key = ''ArrowRight'' \<or> key = ''ArrowLeft'' \<or> key = ''ArrowDown''
       \<or> key = ''ArrowUp'' \<or> key = ''Home'' \<or> key = ''End'' \<or> key = ''Enter'' \<or> key = ''Escape''"
      by (simp only: handled_iff)
    then show ?thesis
    proof (elim disjE)
      assume "key = ''ArrowRight''"
      then show ?thesis using assms(1,2) by (auto simp: key_switch_ArrowRight switch_ok_def)
    next
      assume "key = ''ArrowLeft''"
      then show ?thesis using assms(1,2) by (auto simp: key_switch_ArrowLeft switch_ok_def)
    next
      assume "key = ''ArrowDown''"
      then show ?thesis using assms(1,2) down by (auto simp: key_switch_ArrowDown switch_ok_def)
    next
      assume "key = ''ArrowUp''"
      then show ?thesis using assms(1,2) up by (auto simp: key_switch_ArrowUp switch_ok_def)
    next
      assume "key = ''Home''"
      then show ?thesis using assms(1,2) by (auto simp: key_switch_Home switch_ok_def)
    next
      assume "key = ''End''"
      then show ?thesis using assms(1,2) by (auto simp: key_switch_End switch_ok_def)
    next
      assume "key = ''Enter''"
      then show ?thesis using assms(1,2) el by (auto simp: key_switch_Enter switch_ok_def)
    next
      assume "key = ''Escape''"
      then show ?thesis using assms(1,2) by (auto simp: key_switch_Escape switch_ok_def closeDetail_def)
    qed
  qed
qed


lemma findIndex_found:
  "findIndex P xs \<noteq> - 1 \<Longrightarrow> P (xs ! nat (findIndex P xs))"
proof (induction xs)
  case Nil
  then show ?case by simp
next
  case (Cons x xs)
  show ?case
  proof (cases "P x")
    case True
    then show ?thesis by simp
  next
    case False
    from Cons.prems False have r: "findIndex P xs \<noteq> - 1"
      by (auto simp: Let_def split: if_splits)
    have "0 \<le> findIndex P xs" using findIndex_range [of P xs] r by auto
    then have "nat (findIndex P xs + 1) = Suc (nat (findIndex P xs))" by simp
    with False r Cons.IH show ?thesis by (simp add: Let_def)
  qed
qed

lemma findIndex_none: "findIndex P xs = - 1 \<longleftrightarrow> (\<forall>x \<in> set xs. \<not> P x)"
proof (induction xs)
  case Nil
  then show ?case by simp
next
  case (Cons x xs)
  have "findIndex P xs + 1 \<noteq> - 1" using findIndex_range [of P xs] by auto
  with Cons show ?case by (auto simp: Let_def)
qed

lemma findIndex_takeWhile:
  "findIndex P xs \<noteq> - 1 \<Longrightarrow> findIndex P xs = int (length (takeWhile (\<lambda>x. \<not> P x) xs))"
proof (induction xs)
  case Nil
  then show ?case by simp
next
  case (Cons x xs)
  then show ?case by (auto simp: Let_def split: if_splits)
qed

text \<open>The index the handler starts from.\<close>

lemma start_index:
  assumes "plugins s \<noteq> []"
  defines "ci \<equiv> findIndex (\<lambda>p. Some (pid p) = selectedId s) (plugins s)"
  defines "idx \<equiv> (if ci = - 1 then 0 else ci)"
  shows "0 \<le> idx" "idx < int (length (plugins s))"
    "ci = - 1 \<or> (0 \<le> ci \<and> ci < int (length (plugins s)))"
    "idx = index_ref (selectedId s) (map pid (plugins s))"
proof -
  let ?P = "\<lambda>p. Some (pid p) = selectedId s"
  have r: "ci = - 1 \<or> (0 \<le> ci \<and> ci < int (length (plugins s)))"
    unfolding ci_def by (rule findIndex_range)
  then show "ci = - 1 \<or> (0 \<le> ci \<and> ci < int (length (plugins s)))" .
  from r assms(1) show "0 \<le> idx" "idx < int (length (plugins s))"
    unfolding idx_def by auto
  have mem: "selectedId s \<in> Some ` set (map pid (plugins s)) \<longleftrightarrow> ci \<noteq> - 1"
    unfolding ci_def findIndex_none by (auto simp: image_iff) (metis)
  have tw: "takeWhile (\<lambda>i. Some i \<noteq> selectedId s) (map pid (plugins s))
              = map pid (takeWhile (\<lambda>p. \<not> ?P p) (plugins s))"
    by (simp add: takeWhile_map comp_def)
  show "idx = index_ref (selectedId s) (map pid (plugins s))"
  proof (cases "ci = - 1")
    case True
    with mem show ?thesis unfolding idx_def index_ref_def by simp
  next
    case False
    then have "ci = int (length (takeWhile (\<lambda>p. \<not> ?P p) (plugins s)))"
      unfolding ci_def by (rule findIndex_takeWhile)
    with False mem tw show ?thesis unfolding idx_def index_ref_def by simp
  qed
qed

lemma handleKeyDown_empty: "plugins s = [] \<Longrightarrow> handleKeyDown key s = Inr s"
  by (simp add: handleKeyDown_def)

lemma handleKeyDown_unfold:
  assumes "plugins s \<noteq> []"
  shows "handleKeyDown key s =
     (let currentIndex = findIndex (\<lambda>p. Some (pid p) = selectedId s) (plugins s);
          idx = index_ref (selectedId s) (map pid (plugins s))
      in case key_switch key s currentIndex idx of
           None \<Rightarrow> Inr s
         | Some (Inl e) \<Rightarrow> Inl e
         | Some (Inr (newIndex, s1)) \<Rightarrow>
             (case element (plugins s) newIndex of
                Inl e \<Rightarrow> Inl e
              | Inr p \<Rightarrow> Inr (s1\<lparr> selectedId := Some (pid p) \<rparr>)))"
  using assms start_index(4) [OF assms]
  by (simp add: handleKeyDown_def Let_def)

lemma handleKeyDown_cases:
  assumes ne: "plugins s \<noteq> []"
  shows "(key_switch key s (findIndex (\<lambda>p. Some (pid p) = selectedId s) (plugins s))
            (index_ref (selectedId s) (map pid (plugins s))) = None
          \<and> handleKeyDown key s = Inr s) \<or>
         (\<exists>j s1. 0 \<le> j \<and> j < int (length (plugins s))
            \<and> (s1 = s \<or> (\<exists>p \<in> set (plugins s). s1 = handleOpen p s) \<or> s1 = closeDetail s)
            \<and> key_switch key s (findIndex (\<lambda>p. Some (pid p) = selectedId s) (plugins s))
                  (index_ref (selectedId s) (map pid (plugins s))) = Some (Inr (j, s1))
            \<and> handleKeyDown key s = Inr (s1\<lparr> selectedId := Some (pid (plugins s ! nat j)) \<rparr>))"
proof -
  let ?ci = "findIndex (\<lambda>p. Some (pid p) = selectedId s) (plugins s)"
  let ?idx = "index_ref (selectedId s) (map pid (plugins s))"
  have idx: "?idx = (if ?ci = - 1 then 0 else ?ci)" using start_index(4) [OF ne] by simp
  have "switch_ok s (key_switch key s ?ci ?idx)"
    unfolding idx using start_index(1,2,3) [OF ne] by (intro key_switch_range) auto
  then show ?thesis
    unfolding handleKeyDown_unfold [OF ne] Let_def switch_ok_def
    by (auto simp: element_def split: option.splits sum.splits)
qed

text \<open>
  Claim C3. \<^verbatim>\<open>handleKeyDown\<close> is total: for every key, selection, view mode and
  list it returns a state and throws nothing; the list, the view mode and the mark of the
  toggles are untouched; the new selection is
  the old one or the id of the plugin at an index below the length of the list; and on the
  empty list the state is returned as it was.
\<close>

theorem handleKeyDown_total:
  "\<exists>s'. handleKeyDown key s = Inr s' \<and> plugins s' = plugins s
        \<and> viewMode s' = viewMode s \<and> updating s' = updating s
        \<and> (selectedId s' = selectedId s
             \<or> (\<exists>i < length (plugins s). selectedId s' = Some (pid (plugins s ! i))))
        \<and> (plugins s = [] \<longrightarrow> s' = s)"
proof (cases "plugins s = []")
  case True
  then show ?thesis by (simp add: handleKeyDown_empty)
next
  case False
  from handleKeyDown_cases [OF False, of key]
  consider "handleKeyDown key s = Inr s"
    | j s1 where "0 \<le> j" "j < int (length (plugins s))"
        "s1 = s \<or> (\<exists>p \<in> set (plugins s). s1 = handleOpen p s) \<or> s1 = closeDetail s"
        "handleKeyDown key s = Inr (s1\<lparr> selectedId := Some (pid (plugins s ! nat j)) \<rparr>)"
    by blast
  then show ?thesis
  proof cases
    case 1
    with False show ?thesis by simp
  next
    case (2 j s1)
    from 2(3) have s1: "plugins s1 = plugins s" "viewMode s1 = viewMode s"
      "updating s1 = updating s"
      by (auto simp: handleOpen_def closeDetail_def)
    from 2(1,2) have "nat j < length (plugins s)" by simp
    with 2(4) s1 False show ?thesis by auto
  qed
qed

theorem handleKeyDown_total_witness:
  "plugins (mount Icons) = [] \<and> handleKeyDown ''ArrowRight'' (mount Icons) = Inr (mount Icons)"
  using handleKeyDown_total [of "''ArrowRight''" "mount Icons"]
  by (auto simp: mount_def)

lemma loaded_eq:
  "loaded = \<lparr> plugins = [pluginA, pluginB], loading = False, error = None, selectedId = None,
       viewMode = Icons, updating = None, detailPlugin = None,
       cancelled = False, loadPending = False, inflight = [], console = [],
       opened = [] \<rparr>"
  by (simp add: loaded_def listed_def mount_def load_settled_def sort_by_def by_name_def
      localeCompare_ci_def fold_case_def pluginA_def pluginB_def)

lemma selectedA_eq:
  "selectedA = \<lparr> plugins = [pluginA, pluginB], loading = False, error = None,
       selectedId = Some ''a'',
       viewMode = Icons, updating = None, detailPlugin = Some pluginA,
       cancelled = False, loadPending = False, inflight = [], console = [],
       opened = [] \<rparr>"
  by (simp add: selectedA_def loaded_eq interactive_def render_def handleSelect_def pluginA_def)

lemma move_ref_alt:
  "move_ref d grid columns n idx =
     (case d of
           MoveLeft \<Rightarrow> (if grid then max (idx - 1) 0 else idx)
         | MoveRight \<Rightarrow> (if grid then min (idx + 1) (n - 1) else idx)
         | MoveUp \<Rightarrow>
             (if grid then (if idx div columns > 0 then (idx div columns - 1) * columns + idx mod columns else idx)
              else max (idx - 1) 0)
         | MoveDown \<Rightarrow>
             (if grid then (if idx div columns < - (- n div columns) - 1
                            then min ((idx div columns + 1) * columns + idx mod columns) (n - 1) else idx)
              else min (idx + 1) (n - 1))
         | MoveHome \<Rightarrow> 0
         | MoveEnd \<Rightarrow> n - 1)"
  by (simp only: move_ref_def Let_def ceiling_divide_eq_div)

lemma key_switch_reference:
  "key_switch (key_of d) s ci idx =
     Some (Inr (move_ref d (viewMode s = Icons) (if viewMode s = Icons then 6 else 1)
                  (int (length (plugins s))) idx, s))"
proof (cases d)
  case MoveLeft then show ?thesis by (simp add: key_switch_ArrowLeft move_ref_alt)
next
  case MoveRight then show ?thesis by (simp add: key_switch_ArrowRight move_ref_alt)
next
  case MoveUp then show ?thesis by (simp add: key_switch_ArrowUp move_ref_alt)
next
  case MoveDown then show ?thesis by (simp add: key_switch_ArrowDown move_ref_alt)
next
  case MoveHome then show ?thesis by (simp add: key_switch_Home move_ref_alt)
next
  case MoveEnd then show ?thesis by (simp add: key_switch_End move_ref_alt)
qed

text \<open>
  Claim C4. The index arithmetic of \<^verbatim>\<open>handleKeyDown\<close> is the reference formula of the
  specification: for each direction the switch leaves in \<^verbatim>\<open>newIndex\<close> the value of
  \<open>move_ref\<close> with \<open>columns = 6\<close> in the icons (grid) mode and \<open>1\<close> otherwise, and
  on a list that is not empty the handler selects the plugin at the reference index computed
  from the index of the selected id (0 if not found).
\<close>

theorem navigation_matches_reference:
  "key_switch (key_of d) s ci idx =
     Some (Inr (move_ref d (viewMode s = Icons) (if viewMode s = Icons then 6 else 1)
                  (int (length (plugins s))) idx, s))
   \<and> (plugins s \<noteq> [] \<longrightarrow>
        handleKeyDown (key_of d) s =
          Inr (s\<lparr> selectedId := Some (pid (plugins s ! nat
                 (move_ref d (viewMode s = Icons) (if viewMode s = Icons then 6 else 1)
                    (int (length (plugins s)))
                    (index_ref (selectedId s) (map pid (plugins s)))))) \<rparr>))"
proof (intro conjI impI)
  show "key_switch (key_of d) s ci idx =
     Some (Inr (move_ref d (viewMode s = Icons) (if viewMode s = Icons then 6 else 1)
                  (int (length (plugins s))) idx, s))"
    by (rule key_switch_reference)
next
  assume ne: "plugins s \<noteq> []"
  from handleKeyDown_cases [OF ne, of "key_of d"] show "handleKeyDown (key_of d) s =
          Inr (s\<lparr> selectedId := Some (pid (plugins s ! nat
                 (move_ref d (viewMode s = Icons) (if viewMode s = Icons then 6 else 1)
                    (int (length (plugins s)))
                    (index_ref (selectedId s) (map pid (plugins s)))))) \<rparr>)"
    by (auto simp: key_switch_reference)
qed

lemma key_switch_handled: "handled key \<Longrightarrow> key_switch key s ci idx \<noteq> None"
  unfolding handled_iff
  by (elim disjE) (simp_all add: key_switch_ArrowRight key_switch_ArrowLeft key_switch_ArrowDown
      key_switch_ArrowUp key_switch_Home key_switch_End key_switch_Enter key_switch_Escape
      split: sum.splits)

text \<open>
  Claim C10. On a list that is not empty, when the selection is null or names no plugin of
  the list, every handled key sets the selection to the id of a plugin of the list; Escape,
  Enter, and ArrowLeft and ArrowRight outside the icons mode set it to the id of the plugin at
  index 0.
\<close>

theorem unmatched_selection_lands_in_list:
  assumes ne: "plugins s \<noteq> []"
    and un: "\<forall>p \<in> set (plugins s). selectedId s \<noteq> Some (pid p)"
    and hk: "handled key"
  shows "\<exists>s'. handleKeyDown key s = Inr s'
           \<and> (\<exists>p \<in> set (plugins s). selectedId s' = Some (pid p))
           \<and> ((key = ''Escape'' \<or> key = ''Enter''
                \<or> ((key = ''ArrowLeft'' \<or> key = ''ArrowRight'') \<and> viewMode s \<noteq> Icons))
               \<longrightarrow> selectedId s' = Some (pid (plugins s ! 0)))"
proof -
  let ?ci = "findIndex (\<lambda>p. Some (pid p) = selectedId s) (plugins s)"
  let ?idx = "index_ref (selectedId s) (map pid (plugins s))"
  from un have "selectedId s \<notin> Some ` set (map pid (plugins s))" by auto
  then have idx0: "?idx = 0" by (simp add: index_ref_def)
  from handleKeyDown_cases [OF ne, of key] key_switch_handled [OF hk, of s ?ci ?idx]
  obtain j s1 where j: "0 \<le> j" "j < int (length (plugins s))"
    and ks: "key_switch key s ?ci ?idx = Some (Inr (j, s1))"
    and h: "handleKeyDown key s = Inr (s1\<lparr> selectedId := Some (pid (plugins s ! nat j)) \<rparr>)"
    by auto
  from j have mem: "plugins s ! nat j \<in> set (plugins s)" by simp
  have zero: "j = 0" if "key = ''Escape'' \<or> key = ''Enter''
        \<or> ((key = ''ArrowLeft'' \<or> key = ''ArrowRight'') \<and> viewMode s \<noteq> Icons)"
    using that ks idx0
    by (elim disjE conjE)
      (auto simp: key_switch_Escape key_switch_Enter key_switch_ArrowLeft key_switch_ArrowRight
        split: if_splits sum.splits)
  from h mem zero show ?thesis by auto
qed


theorem navigation_matches_reference_witness:
  "plugins selectedA \<noteq> []
   \<and> handleKeyDown ''ArrowRight'' selectedA = Inr (selectedA\<lparr> selectedId := Some ''b'' \<rparr>)"
  using navigation_matches_reference [of MoveRight selectedA 0 0]
  by (simp add: selectedA_eq move_ref_alt index_ref_def pluginA_def pluginB_def)

theorem unmatched_selection_lands_in_list_witness:
  "plugins loaded \<noteq> [] \<and> selectedId loaded = None \<and> handled ''Escape''
   \<and> (\<exists>s'. handleKeyDown ''Escape'' loaded = Inr s' \<and> selectedId s' = Some ''a'')"
proof -
  have h: "plugins loaded \<noteq> []" "\<forall>p \<in> set (plugins loaded). selectedId loaded \<noteq> Some (pid p)"
    "handled ''Escape''"
    by (simp_all add: loaded_eq handled_def)
  from unmatched_selection_lands_in_list [OF h] h show ?thesis
    by (auto simp: loaded_eq pluginA_def)
qed

section \<open>The event loop: what every reachable state satisfies\<close>

lemma map_pid_commit: "map pid (commit_enabled i b ps) = map pid ps"
  by (induction ps) (simp_all add: commit_enabled_def)

lemma map_fixed_part_commit: "map fixed_part (commit_enabled i b ps) = map fixed_part ps"
  by (induction ps) (simp_all add: commit_enabled_def fixed_part_def)

lemma commit_Nil: "commit_enabled i b [] = []"
  by (simp add: commit_enabled_def)

lemma selection_valid_iff:
  "selection_valid s \<longleftrightarrow> selectedId s \<in> Some ` set (map pid (plugins s))"
  by (auto simp: selection_valid_def image_iff)

lemma set_drop_nth: "set (drop_nth k xs) \<subseteq> set xs"
  unfolding drop_nth_def using set_take_subset [of k xs] set_drop_subset [of "Suc k" xs] by auto

lemma settled_fields:
  "loading (handleToggle_settled c out s) = loading s"
  "error (handleToggle_settled c out s) = error s"
  "selectedId (handleToggle_settled c out s) = selectedId s"
  "viewMode (handleToggle_settled c out s) = viewMode s"
  "inflight (handleToggle_settled c out s) = inflight s"
  "loadPending (handleToggle_settled c out s) = loadPending s"
  "cancelled (handleToggle_settled c out s) = cancelled s"
  "opened (handleToggle_settled c out s) = opened s"
  "updating (handleToggle_settled c out s) = None"
  by (simp_all add: handleToggle_settled_def Let_def split: sum.splits option.splits)

lemma settled_plugins:
  "plugins (handleToggle_settled c out s) =
     (case setPluginEnabled (pid (call_plugin c)) (\<not> enabled (call_plugin c)) out of
        Inl err \<Rightarrow> plugins s
      | Inr u \<Rightarrow> commit_enabled (pid (call_plugin c)) (\<not> enabled (call_plugin c)) (plugins s))"
  by (simp add: handleToggle_settled_def Let_def split: sum.splits option.splits)

lemma settled_detail:
  "detailPlugin (handleToggle_settled c out s) = detailPlugin s
   \<or> (call_detail c \<noteq> None \<and> detailPlugin (handleToggle_settled c out s) \<noteq> None)"
  by (simp add: handleToggle_settled_def Let_def split: sum.splits option.splits)

lemma settled_map_pid: "map pid (plugins (handleToggle_settled c out s)) = map pid (plugins s)"
  by (simp add: settled_plugins map_pid_commit split: sum.splits)

lemma settled_selection_valid:
  "selection_valid (handleToggle_settled c out s) = selection_valid s"
  by (simp add: selection_valid_iff settled_map_pid settled_fields del: set_map)

lemma settled_plugins_Nil: "plugins s = [] \<Longrightarrow> plugins (handleToggle_settled c out s) = []"
  by (simp add: settled_plugins commit_Nil split: sum.splits)

text \<open>What a key press leaves alone.\<close>

lemma handleKeyDown_frame:
  "\<exists>s'. handleKeyDown key s = Inr s' \<and> plugins s' = plugins s \<and> loading s' = loading s
     \<and> error s' = error s \<and> inflight s' = inflight s \<and> loadPending s' = loadPending s
     \<and> cancelled s' = cancelled s \<and> updating s' = updating s \<and> viewMode s' = viewMode s
     \<and> console s' = console s
     \<and> (detailPlugin s' = detailPlugin s \<or> detailPlugin s' = None)
     \<and> (s' = s \<or> selection_valid s')"
proof (cases "plugins s = []")
  case True
  then show ?thesis by (simp add: handleKeyDown_empty)
next
  case False
  from handleKeyDown_cases [OF False, of key]
  consider "handleKeyDown key s = Inr s"
    | j s1 where "0 \<le> j" "j < int (length (plugins s))"
        "s1 = s \<or> (\<exists>p \<in> set (plugins s). s1 = handleOpen p s) \<or> s1 = closeDetail s"
        "handleKeyDown key s = Inr (s1\<lparr> selectedId := Some (pid (plugins s ! nat j)) \<rparr>)"
    by blast
  then show ?thesis
  proof cases
    case 1
    then show ?thesis by simp
  next
    case (2 j s1)
    let ?s' = "s1\<lparr> selectedId := Some (pid (plugins s ! nat j)) \<rparr>"
    from 2(1,2) have mem: "plugins s ! nat j \<in> set (plugins s)" by simp
    from 2(3) have f: "plugins s1 = plugins s" "loading s1 = loading s" "error s1 = error s"
      "inflight s1 = inflight s" "loadPending s1 = loadPending s" "cancelled s1 = cancelled s"
      "updating s1 = updating s" "viewMode s1 = viewMode s" "console s1 = console s"
      "detailPlugin s1 = detailPlugin s \<or> detailPlugin s1 = None"
      by (auto simp: handleOpen_def closeDetail_def)
    from mem f(1) have "selection_valid ?s'" by (auto simp: selection_valid_def)
    with 2(4) f show ?thesis by simp
  qed
qed

lemma invariant_mount: "invariant (mount initialView)"
  by (simp add: invariant_def mount_def selection_valid_def)

lemma interactive_facts:
  "interactive s \<Longrightarrow> \<not> loading s \<and> \<not> cancelled s \<and> plugins s \<noteq> []"
  by (auto simp: interactive_def render_def split: if_splits option.splits list.splits)

lemma invariant_LoadSettled: "invariant s \<Longrightarrow> invariant (step cmp (LoadSettled out) s)"
  by (auto simp: invariant_def load_settled_def selection_valid_def split: sum.splits)

lemma invariant_Click: "invariant s \<Longrightarrow> invariant (step cmp (Click i) s)"
  by (auto simp: invariant_def handleSelect_def selection_valid_def dest!: interactive_facts)

lemma invariant_DoubleClick: "invariant s \<Longrightarrow> invariant (step cmp (DoubleClick i) s)"
  by (auto simp: invariant_def handleOpen_def selection_valid_def dest!: interactive_facts)

lemma invariant_ViewButton: "invariant s \<Longrightarrow> invariant (step cmp (ViewButton m) s)"
  by (auto simp: invariant_def selection_valid_def dest!: interactive_facts)

lemma invariant_PanelClose: "invariant s \<Longrightarrow> invariant (step cmp PanelClose s)"
  by (auto simp: invariant_def closeDetail_def selection_valid_def dest!: interactive_facts)

lemma invariant_call:
  "invariant s \<Longrightarrow> interactive s \<Longrightarrow> invariant (handleToggle_call p s)"
  by (auto simp: invariant_def handleToggle_call_def selection_valid_def dest!: interactive_facts)

lemma invariant_Checkbox: "invariant s \<Longrightarrow> invariant (step cmp (Checkbox i) s)"
  by (simp add: invariant_call)

lemma invariant_PanelToggle: "invariant s \<Longrightarrow> invariant (step cmp PanelToggle s)"
  by (simp add: invariant_call split: option.splits)

lemma invariant_KeyDown:
  assumes "invariant s"
  shows "invariant (step cmp (KeyDown key) s)"
proof (cases "interactive s")
  case False
  with assms show ?thesis by simp
next
  case True
  from handleKeyDown_frame [of key s] obtain s' where s': "handleKeyDown key s = Inr s'"
    and f: "plugins s' = plugins s" "loading s' = loading s" "error s' = error s"
      "inflight s' = inflight s" "loadPending s' = loadPending s"
      "detailPlugin s' = detailPlugin s \<or> detailPlugin s' = None"
      "s' = s \<or> selection_valid s'"
    by blast
  from f(7) show ?thesis
  proof
    assume "s' = s"
    with s' True assms show ?thesis by simp
  next
    assume "selection_valid s'"
    with assms f have "invariant s'" unfolding invariant_def by auto
    with s' True show ?thesis by simp
  qed
qed

lemma invariant_WriteSettled:
  assumes "invariant s"
  shows "invariant (step cmp (WriteSettled k out) s)"
proof (cases "k < length (inflight s)")
  case False
  with assms show ?thesis by simp
next
  case True
  let ?c = "inflight s ! k"
  let ?s0 = "s\<lparr> inflight := drop_nth k (inflight s) \<rparr>"
  let ?s' = "handleToggle_settled ?c out ?s0"
  from True have cin: "?c \<in> set (inflight s)" by simp
  from True have ne: "inflight s \<noteq> []" by auto
  with assms have nl: "\<not> loading s" "error s = None" "\<not> loadPending s"
    unfolding invariant_def by auto
  have sv: "selection_valid ?s' = selection_valid s"
    by (simp add: settled_selection_valid) (simp add: selection_valid_def)
  have inf: "set (inflight ?s') \<subseteq> set (inflight s)"
    using set_drop_nth [of k "inflight s"] by (simp add: settled_fields)
  have det: "detailPlugin ?s' \<noteq> None \<longrightarrow> selection_valid s"
    using settled_detail [of ?c out ?s0] assms cin unfolding invariant_def by auto
  have "invariant ?s'"
    unfolding invariant_def
    using nl sv inf det assms unfolding invariant_def
    by (auto simp: settled_fields)
  with True show ?thesis by simp
qed

lemma invariant_step: "invariant s \<Longrightarrow> invariant (step cmp e s)"
proof (cases e)
  case (LoadSettled out) 
  assume "invariant s" with LoadSettled show ?thesis by (simp only: invariant_LoadSettled)
next
  case Unmount
  assume "invariant s" with Unmount show ?thesis by (simp add: invariant_def selection_valid_def)
next
  case (Click i)
  assume "invariant s" with Click show ?thesis by (simp only: invariant_Click)
next
  case (DoubleClick i)
  assume "invariant s" with DoubleClick show ?thesis by (simp only: invariant_DoubleClick)
next
  case (KeyDown key)
  assume "invariant s" with KeyDown show ?thesis by (simp only: invariant_KeyDown)
next
  case (ViewButton m)
  assume "invariant s" with ViewButton show ?thesis by (simp only: invariant_ViewButton)
next
  case (Checkbox i)
  assume "invariant s" with Checkbox show ?thesis by (simp only: invariant_Checkbox)
next
  case PanelToggle
  assume "invariant s" with PanelToggle show ?thesis by (simp only: invariant_PanelToggle)
next
  case PanelClose
  assume "invariant s" with PanelClose show ?thesis by (simp only: invariant_PanelClose)
next
  case (WriteSettled k out)
  assume "invariant s" with WriteSettled show ?thesis by (simp only: invariant_WriteSettled)
qed

lemma invariant_run: "invariant s \<Longrightarrow> invariant (run cmp es s)"
  by (induction es arbitrary: s) (simp_all add: invariant_step)

lemma invariant_reachable: "invariant (run cmp es (mount initialView))"
  by (rule invariant_run) (rule invariant_mount)

section \<open>The detail panel and Escape\<close>

lemma interactiveI:
  assumes "invariant s" "selection_valid s" "\<not> cancelled s"
  shows "interactive s"
proof -
  from assms(2) have ne: "plugins s \<noteq> []" by (auto simp: selection_valid_def)
  with assms(1) have "\<not> loading s" "error s = None" unfolding invariant_def by auto
  with ne assms(3) show ?thesis by (simp add: interactive_def render_def)
qed

lemma escape_on_valid_selection:
  assumes sv: "selection_valid s" and op: "detailPlugin s \<noteq> None"
  shows "handleKeyDown ''Escape'' s = Inr (s\<lparr> detailPlugin := None \<rparr>)"
proof -
  let ?P = "\<lambda>p. Some (pid p) = selectedId s"
  let ?ci = "findIndex ?P (plugins s)"
  from sv have ne: "plugins s \<noteq> []" by (auto simp: selection_valid_def)
  from sv have "\<not> (\<forall>p \<in> set (plugins s). \<not> ?P p)" by (auto simp: selection_valid_def)
  then have found: "?ci \<noteq> - 1" using findIndex_none [of ?P "plugins s"] by blast
  with findIndex_range [of ?P "plugins s"]
  have r: "0 \<le> ?ci" "?ci < int (length (plugins s))" by auto
  from findIndex_found [OF found] have sel: "selectedId s = Some (pid (plugins s ! nat ?ci))"
    by simp
  have "handleKeyDown ''Escape'' s =
          Inr ((closeDetail s)\<lparr> selectedId := Some (pid (plugins s ! nat ?ci)) \<rparr>)"
    using ne found r op
    by (simp add: handleKeyDown_def Let_def key_switch_Escape element_def)
  also have "(closeDetail s)\<lparr> selectedId := Some (pid (plugins s ! nat ?ci)) \<rparr>
               = s\<lparr> detailPlugin := None \<rparr>"
    using sel by (simp add: closeDetail_def)
  finally show ?thesis .
qed

text \<open>
  Claim C9. In every state the component reaches from its mount in which the detail panel
  is open, the handler run on Escape returns that state with the panel closed and nothing
  else changed, the selection included; while the component is mounted this is what the
  key press does.
\<close>

theorem escape_closes_panel_only:
  assumes "s = run cmp es (mount initialView)" and "detailPlugin s \<noteq> None"
  shows "handleKeyDown ''Escape'' s = Inr (s\<lparr> detailPlugin := None \<rparr>)
         \<and> (\<not> cancelled s \<longrightarrow> step cmp (KeyDown ''Escape'') s = s\<lparr> detailPlugin := None \<rparr>)"
proof -
  from assms(1) have inv: "invariant s" by (simp add: invariant_reachable)
  with assms(2) have sv: "selection_valid s" unfolding invariant_def by simp
  from escape_on_valid_selection [OF sv assms(2)] interactiveI [OF inv sv]
  show ?thesis by simp
qed

theorem escape_closes_panel_only_witness:
  "detailPlugin selectedA \<noteq> None \<and> \<not> cancelled selectedA
   \<and> step localeCompare_ci (KeyDown ''Escape'') selectedA = selectedA\<lparr> detailPlugin := None \<rparr>
   \<and> selectedId (step localeCompare_ci (KeyDown ''Escape'') selectedA) = Some ''a''"
proof -
  have r: "selectedA = run localeCompare_ci [LoadSettled listed, Click 0] (mount Icons)"
    by (simp add: selectedA_def loaded_def)
  have o: "detailPlugin selectedA \<noteq> None" by (simp add: selectedA_eq)
  from escape_closes_panel_only [OF r o] o show ?thesis
    by (simp add: selectedA_eq)
qed

section \<open>Loading: failure and unmount\<close>

lemma step_when_idle:
  assumes "plugins s = []" "inflight s = []" "\<not> loadPending s"
  shows "step cmp e s = s \<or> step cmp e s = s\<lparr> cancelled := True \<rparr>"
  using assms by (cases e) (simp_all add: interactive_def render_def split: option.splits list.splits)

lemma run_when_idle:
  assumes "plugins s = []" "inflight s = []" "\<not> loadPending s"
  shows "plugins (run cmp es s) = [] \<and> error (run cmp es s) = error s
         \<and> loading (run cmp es s) = loading s"
  using assms
proof (induction es arbitrary: s)
  case Nil
  then show ?case by simp
next
  case (Cons e es)
  from step_when_idle [OF Cons.prems, of cmp e] show ?case
  proof
    assume "step cmp e s = s"
    with Cons show ?thesis by simp
  next
    assume st: "step cmp e s = s\<lparr> cancelled := True \<rparr>"
    from Cons.prems Cons.IH [of "s\<lparr> cancelled := True \<rparr>"] st show ?thesis by simp
  qed
qed

lemma step_when_unmounted:
  assumes "cancelled s" "inflight s = []"
  shows "step cmp e s = s \<or> step cmp e s = s\<lparr> loadPending := False \<rparr>"
  using assms
  by (cases e) (simp_all add: interactive_def load_settled_def split: option.splits sum.splits)

lemma run_when_unmounted:
  assumes "cancelled s" "inflight s = []"
  shows "plugins (run cmp es s) = plugins s \<and> error (run cmp es s) = error s
         \<and> loading (run cmp es s) = loading s"
  using assms
proof (induction es arbitrary: s)
  case Nil
  then show ?case by simp
next
  case (Cons e es)
  from step_when_unmounted [OF Cons.prems, of cmp e] show ?case
  proof
    assume "step cmp e s = s"
    with Cons show ?thesis by simp
  next
    assume st: "step cmp e s = s\<lparr> loadPending := False \<rparr>"
    from Cons.prems Cons.IH [of "s\<lparr> loadPending := False \<rparr>"] st show ?thesis by simp
  qed
qed

text \<open>
  Claim C8. If the component is unmounted while the fetch issued on mount is unsettled,
  then whatever happens afterwards, the settling of the fetch with a list or with an error
  included, the list, the loading flag and the error are what they were at the unmount:
  empty, set, and null.
\<close>

theorem unmount_discards_load:
  assumes "s = run cmp es (mount initialView)" and "loadPending s"
  shows "plugins (run cmp es' (step cmp Unmount s)) = []
         \<and> loading (run cmp es' (step cmp Unmount s))
         \<and> error (run cmp es' (step cmp Unmount s)) = None"
proof -
  from assms(1) have "invariant s" by (simp add: invariant_reachable)
  with assms(2) have f: "loading s" "plugins s = []" "error s = None" "inflight s = []"
    unfolding invariant_def by auto
  from run_when_unmounted [of "step cmp Unmount s" cmp es'] f show ?thesis by simp
qed

theorem unmount_discards_load_witness:
  "loadPending (mount Icons)
   \<and> plugins (run localeCompare_ci [LoadSettled listed] (step localeCompare_ci Unmount (mount Icons))) = []
   \<and> loading (run localeCompare_ci [LoadSettled listed] (step localeCompare_ci Unmount (mount Icons)))
   \<and> error (run localeCompare_ci [LoadSettled listed] (step localeCompare_ci Unmount (mount Icons))) = None"
proof -
  have r: "mount Icons = run localeCompare_ci [] (mount Icons)" by simp
  have p: "loadPending (mount Icons)" by (simp add: mount_def)
  from unmount_discards_load [OF r p, of "[LoadSettled listed]"] p show ?thesis by simp
qed

lemma load_failure_state:
  assumes "s = run cmp es (mount initialView)" and "loadPending s" and "\<not> cancelled s"
    and "fetchPlugins out = Inl msg"
  shows "error (run cmp es' (step cmp (LoadSettled out) s)) = Some msg
         \<and> \<not> loading (run cmp es' (step cmp (LoadSettled out) s))
         \<and> plugins (run cmp es' (step cmp (LoadSettled out) s)) = []"
proof -
  let ?s1 = "step cmp (LoadSettled out) s"
  from assms(1) have "invariant s" by (simp add: invariant_reachable)
  with assms(2) have f: "plugins s = []" "inflight s = []"
    unfolding invariant_def by auto
  from assms(2,3,4) f have s1: "plugins ?s1 = []" "inflight ?s1 = []" "\<not> loadPending ?s1"
    "error ?s1 = Some msg" "\<not> loading ?s1"
    by (simp_all add: load_settled_def)
  from run_when_idle [OF s1(1,2,3), of cmp es'] s1(4,5)
  show ?thesis by simp
qed

text \<open>The message built for a response that is not ok is never empty.\<close>

lemma not_ok_message:
  "fetchPlugins (Response False statusText body) = Inl (''Failed to fetch plugins: '' @ statusText)
   \<and> ''Failed to fetch plugins: '' @ statusText \<noteq> []"
  by simp



text \<open>A response that is not ok needs no assumption on its status text.\<close>

lemma load_failure_not_ok:
  assumes "s = run cmp es (mount initialView)" and "loadPending s" and "\<not> cancelled s"
  shows "render (run cmp es' (step cmp (LoadSettled (Response False statusText body)) s))
           = ErrorScreen (''Failed to fetch plugins: '' @ statusText)"
proof -
  have f: "fetchPlugins (Response False statusText body) = Inl (''Failed to fetch plugins: '' @ statusText)"
    by simp
  from load_failure_state [OF assms f, of es'] show ?thesis by (simp add: render_def)
qed

section \<open>The order of the list\<close>

lemma set_insert_by: "set (insert_by c x ys) = insert x (set ys)"
  by (induction ys) auto

lemma mset_insert_by: "mset (insert_by c x ys) = add_mset x (mset ys)"
  by (induction ys) auto

lemma mset_sort_by: "mset (sort_by c xs) = mset xs"
  by (induction xs) (simp_all add: sort_by_def mset_insert_by)

lemma sorted_insert_by:
  assumes total: "\<And>a b. c a b \<le> 0 \<or> c b a \<le> 0"
    and trans: "\<And>a b d. c a b \<le> 0 \<Longrightarrow> c b d \<le> 0 \<Longrightarrow> c a d \<le> 0"
  shows "sorted_wrt (\<lambda>a b. c a b \<le> 0) ys \<Longrightarrow> sorted_wrt (\<lambda>a b. c a b \<le> 0) (insert_by c x ys)"
proof (induction ys)
  case Nil
  then show ?case by simp
next
  case (Cons y ys)
  show ?case
  proof (cases "c x y \<le> 0")
    case True
    with Cons.prems trans [of x y] show ?thesis by auto
  next
    case False
    with total [of x y] have "c y x \<le> 0" by simp
    with False Cons show ?thesis by (auto simp: set_insert_by)
  qed
qed

lemma sorted_sort_by:
  assumes total: "\<And>a b. c a b \<le> 0 \<or> c b a \<le> 0"
    and trans: "\<And>a b d. c a b \<le> 0 \<Longrightarrow> c b d \<le> 0 \<Longrightarrow> c a d \<le> 0"
  shows "sorted_wrt (\<lambda>a b. c a b \<le> 0) (sort_by c xs)"
proof (induction xs)
  case Nil
  then show ?case by (simp add: sort_by_def)
next
  case (Cons x xs)
  from sorted_insert_by [of c "sort_by c xs" x, OF total trans Cons]
  show ?case by (simp add: sort_by_def)
qed

lemma sorted_by_name:
  assumes total: "\<And>a b. cmp a b \<le> 0 \<or> cmp b a \<le> 0"
    and trans: "\<And>a b d. cmp a b \<le> 0 \<Longrightarrow> cmp b d \<le> 0 \<Longrightarrow> cmp a d \<le> 0"
  shows "sorted_wrt (\<lambda>a b. cmp a b \<le> 0) (map name (sort_by (by_name cmp) data))"
proof -
  have t1: "\<And>a b. by_name cmp a b \<le> 0 \<or> by_name cmp b a \<le> 0"
    using total by (simp add: by_name_def)
  have t2: "\<And>a b d. by_name cmp a b \<le> 0 \<Longrightarrow> by_name cmp b d \<le> 0 \<Longrightarrow> by_name cmp a d \<le> 0"
    unfolding by_name_def by (rule trans)
  have "sorted_wrt (\<lambda>a b. by_name cmp a b \<le> 0) (sort_by (by_name cmp) data)"
    by (rule sorted_sort_by [of "by_name cmp", OF t1 t2])
  then show ?thesis by (simp add: sorted_wrt_map by_name_def)
qed

lemma names_of_fixed_part: "map name ps = map (\<lambda>t. fst (snd t)) (map fixed_part ps)"
  by (simp add: fixed_part_def comp_def)

lemma fixed_part_step:
  assumes "\<not> loadPending s"
  shows "\<not> loadPending (step cmp e s)
         \<and> map fixed_part (plugins (step cmp e s)) = map fixed_part (plugins s)"
proof (cases e)
  case (KeyDown key)
  from handleKeyDown_frame [of key s] obtain s' where "handleKeyDown key s = Inr s'"
    "plugins s' = plugins s" "loadPending s' = loadPending s" by blast
  with KeyDown assms show ?thesis by simp
next
  case (WriteSettled k out)
  with assms show ?thesis
    by (simp add: settled_fields settled_plugins map_fixed_part_commit split: sum.splits)
next
  case (LoadSettled out)
  with assms show ?thesis by simp
next
  case Unmount
  with assms show ?thesis by simp
next
  case (Click i)
  with assms show ?thesis by (simp add: handleSelect_def)
next
  case (DoubleClick i)
  with assms show ?thesis by (simp add: handleOpen_def)
next
  case (ViewButton m)
  with assms show ?thesis by simp
next
  case (Checkbox i)
  with assms show ?thesis by (simp add: handleToggle_call_def)
next
  case PanelToggle
  with assms show ?thesis by (simp add: handleToggle_call_def split: option.splits)
next
  case PanelClose
  with assms show ?thesis by (simp add: closeDetail_def)
qed

lemma fixed_part_run:
  "\<not> loadPending s \<Longrightarrow> map fixed_part (plugins (run cmp es s)) = map fixed_part (plugins s)"
proof (induction es arbitrary: s)
  case Nil
  then show ?case by simp
next
  case (Cons e es)
  from fixed_part_step [OF Cons.prems, of cmp e] Cons.IH [of "step cmp e s"]
  show ?case by simp
qed

text \<open>
  Claim C2. With a comparison \<open>cmp\<close> of names that is total and transitive, as the
  platform's \<^verbatim>\<open>localeCompare\<close> is, the list after a successful load holds the plugins
  fetched, in ascending order of name under \<open>cmp\<close>; and after any events that follow,
  toggles that succeed included, every position holds the record it held after the load
  up to its field \<^verbatim>\<open>enabled\<close>, so the order is the same and still ascending.
\<close>

theorem load_order_kept:
  assumes total: "\<And>a b. cmp a b \<le> 0 \<or> cmp b a \<le> 0"
    and trans: "\<And>a b d. cmp a b \<le> 0 \<Longrightarrow> cmp b d \<le> 0 \<Longrightarrow> cmp a d \<le> 0"
    and "loadPending s" and "\<not> cancelled s" and "fetchPlugins out = Inr data"
  shows "mset (plugins (step cmp (LoadSettled out) s)) = mset data
     \<and> sorted_wrt (\<lambda>a b. cmp a b \<le> 0) (map name (plugins (step cmp (LoadSettled out) s)))
     \<and> map fixed_part (plugins (run cmp es (step cmp (LoadSettled out) s)))
         = map fixed_part (plugins (step cmp (LoadSettled out) s))
     \<and> sorted_wrt (\<lambda>a b. cmp a b \<le> 0)
         (map name (plugins (run cmp es (step cmp (LoadSettled out) s))))"
proof -
  let ?s1 = "step cmp (LoadSettled out) s"
  from assms(3,4,5) have p: "plugins ?s1 = sort_by (by_name cmp) data" and l: "\<not> loadPending ?s1"
    by (simp_all add: load_settled_def)
  have srt: "sorted_wrt (\<lambda>a b. cmp a b \<le> 0) (map name (plugins ?s1))"
    unfolding p by (rule sorted_by_name [of cmp, OF total trans])
  have fx: "map fixed_part (plugins (run cmp es ?s1)) = map fixed_part (plugins ?s1)"
    by (rule fixed_part_run) (rule l)
  then have "map name (plugins (run cmp es ?s1)) = map name (plugins ?s1)"
    by (simp only: names_of_fixed_part)
  with srt fx p show ?thesis by (simp add: mset_sort_by)
qed

lemma localeCompare_ci_le:
  "localeCompare_ci a b \<le> 0 \<longleftrightarrow> map fold_case a \<le> map fold_case b"
  by (auto simp: localeCompare_ci_def Let_def)

lemma localeCompare_ci_total: "localeCompare_ci a b \<le> 0 \<or> localeCompare_ci b a \<le> 0"
  unfolding localeCompare_ci_le by (rule linear)

lemma localeCompare_ci_trans:
  "localeCompare_ci a b \<le> 0 \<Longrightarrow> localeCompare_ci b d \<le> 0 \<Longrightarrow> localeCompare_ci a d \<le> 0"
  unfolding localeCompare_ci_le by (rule order_trans)

theorem load_order_kept_witness:
  "loadPending (mount Icons) \<and> \<not> cancelled (mount Icons)
   \<and> fetchPlugins listed = Inr [pluginB, pluginA]
   \<and> plugins (step localeCompare_ci (LoadSettled listed) (mount Icons)) = [pluginA, pluginB]
   \<and> sorted_wrt (\<lambda>a b. localeCompare_ci a b \<le> 0)
        (map name (plugins (run localeCompare_ci [ViewButton Details, Checkbox 1, WriteSettled 0 written]
           (step localeCompare_ci (LoadSettled listed) (mount Icons)))))
   \<and> map fixed_part (plugins (run localeCompare_ci [ViewButton Details, Checkbox 1, WriteSettled 0 written]
           (step localeCompare_ci (LoadSettled listed) (mount Icons))))
      = map fixed_part [pluginA, pluginB]"
proof -
  have p: "loadPending (mount Icons)" "\<not> cancelled (mount Icons)" by (simp_all add: mount_def)
  have f: "fetchPlugins listed = Inr [pluginB, pluginA]" by (simp add: listed_def)
  have l: "plugins (step localeCompare_ci (LoadSettled listed) (mount Icons)) = [pluginA, pluginB]"
    using loaded_eq by (simp add: loaded_def)
  from load_order_kept [where cmp = localeCompare_ci
      and es = "[ViewButton Details, Checkbox 1, WriteSettled 0 written]",
      OF localeCompare_ci_total localeCompare_ci_trans p f] p f l
  show ?thesis by simp
qed

section \<open>Toggling\<close>

lemma detailsView_eq:
  "detailsView = \<lparr> plugins = [pluginA, pluginB], loading = False, error = None, selectedId = None,
       viewMode = Details, updating = None, detailPlugin = None,
       cancelled = False, loadPending = False, inflight = [], console = [],
       opened = [] \<rparr>"
  by (simp add: detailsView_def loaded_eq interactive_def render_def)

lemma togglingAB_eq:
  "togglingAB = \<lparr> plugins = [pluginA, pluginB], loading = False, error = None, selectedId = None,
       viewMode = Details, updating = Some ''b'', detailPlugin = None,
       cancelled = False, loadPending = False,
       inflight = [\<lparr> call_plugin = pluginA, call_detail = None \<rparr>,
                   \<lparr> call_plugin = pluginB, call_detail = None \<rparr>],
       console = [], opened = [] \<rparr>"
  by (simp add: togglingAB_def detailsView_eq interactive_def render_def handleToggle_call_def
      pluginA_def pluginB_def)






lemma commit_enabled_frame:
  "length (commit_enabled i b ps) = length ps
   \<and> (\<forall>k < length ps.
         (pid (ps ! k) = i \<longrightarrow> commit_enabled i b ps ! k = (ps ! k)\<lparr> enabled := b \<rparr>)
         \<and> (pid (ps ! k) \<noteq> i \<longrightarrow> commit_enabled i b ps ! k = ps ! k))"
  by (simp add: commit_enabled_def)

lemma commit_commit:
  assumes "i \<noteq> j"
  shows "commit_enabled j bj (commit_enabled i bi ps)
           = map (\<lambda>p. if pid p = i then p\<lparr> enabled := bi \<rparr>
                       else if pid p = j then p\<lparr> enabled := bj \<rparr> else p) ps"
  using assms by (induction ps) (simp_all add: commit_enabled_def)

lemma commit_swap:
  assumes "i \<noteq> j"
  shows "commit_enabled i bi (commit_enabled j bj ps) = commit_enabled j bj (commit_enabled i bi ps)"
  using assms by (induction ps) (simp_all add: commit_enabled_def)

lemma settled_success_plugins:
  "plugins (handleToggle_settled c (WriteResponse True st) s)
     = commit_enabled (pid (call_plugin c)) (\<not> enabled (call_plugin c)) (plugins s)"
  by (simp add: settled_plugins)

lemma two_settled_in_order:
  assumes "inflight t = [c1, c2]"
  shows "plugins (run cmp [WriteSettled 0 (WriteResponse True st1), WriteSettled 0 (WriteResponse True st2)] t)
     = commit_enabled (pid (call_plugin c2)) (\<not> enabled (call_plugin c2))
         (commit_enabled (pid (call_plugin c1)) (\<not> enabled (call_plugin c1)) (plugins t))"
  using assms by (simp add: settled_fields settled_success_plugins drop_nth_def)

lemma two_settled_reversed:
  assumes "inflight t = [c1, c2]"
  shows "plugins (run cmp [WriteSettled 1 (WriteResponse True st2), WriteSettled 0 (WriteResponse True st1)] t)
     = commit_enabled (pid (call_plugin c1)) (\<not> enabled (call_plugin c1))
         (commit_enabled (pid (call_plugin c2)) (\<not> enabled (call_plugin c2)) (plugins t))"
  using assms by (simp add: settled_fields settled_success_plugins drop_nth_def)

text \<open>
  Claim C1, the claim as stated fails. With the two plugins listed in the details view,
  toggle \<open>a\<close> and then \<open>b\<close>: the mark names \<open>b\<close> while the call on \<open>a\<close> is in
  flight; when the call on \<open>a\<close> settles, the mark is cleared while the call on \<open>b\<close>
  is still in flight; and with the mark on \<open>b\<close> the checkbox of \<open>a\<close> accepts a second
  call on \<open>a\<close> while the first is in flight.
\<close>

theorem toggle_mark_counterexample:
  "updating (run localeCompare_ci [Checkbox 0, Checkbox 1] detailsView) = Some ''b''
   \<and> map call_plugin (inflight (run localeCompare_ci [Checkbox 0, Checkbox 1] detailsView))
       = [pluginA, pluginB]
   \<and> updating (run localeCompare_ci [Checkbox 0, Checkbox 1, WriteSettled 0 written] detailsView) = None
   \<and> map call_plugin
        (inflight (run localeCompare_ci [Checkbox 0, Checkbox 1, WriteSettled 0 written] detailsView))
       = [pluginB]
   \<and> map call_plugin (inflight (run localeCompare_ci [Checkbox 0, Checkbox 1, Checkbox 0] detailsView))
       = [pluginA, pluginB, pluginA]"
  by (simp add: detailsView_eq interactive_def render_def handleToggle_call_def
      handleToggle_settled_def drop_nth_def commit_enabled_def written_def pluginA_def pluginB_def)

text \<open>
  Claim C1, amended. The mark is one slot for the whole list. A toggle through the
  checkbox of a row, which is enabled while the slot does not hold the id of the row, sets
  the slot to that id and puts one call in flight; while the slot holds the id the
  checkbox takes no second call; the settling of any call in flight clears the slot. Two
  calls in flight on distinct ids that both succeed both commit their own value on their
  own records and leave every other record as it is, in either order of settling.
\<close>

theorem toggle_mark_single_slot:
  assumes "interactive s" and "viewMode s = Details" and "i < length (plugins s)"
    and "updating s \<noteq> Some (pid (plugins s ! i))"
    and "k < length (inflight u)"
    and "inflight t = [c1, c2]" and "pid (call_plugin c1) \<noteq> pid (call_plugin c2)"
  shows "updating (step cmp (Checkbox i) s) = Some (pid (plugins s ! i))
     \<and> inflight (step cmp (Checkbox i) s)
         = inflight s @ [\<lparr> call_plugin = plugins s ! i, call_detail = detailPlugin s \<rparr>]
     \<and> step cmp (Checkbox i) (step cmp (Checkbox i) s) = step cmp (Checkbox i) s
     \<and> updating (step cmp (WriteSettled k out) u) = None
     \<and> plugins (run cmp [WriteSettled 0 (WriteResponse True st1), WriteSettled 0 (WriteResponse True st2)] t)
         = map (\<lambda>p. if pid p = pid (call_plugin c1) then p\<lparr> enabled := \<not> enabled (call_plugin c1) \<rparr>
                     else if pid p = pid (call_plugin c2) then p\<lparr> enabled := \<not> enabled (call_plugin c2) \<rparr>
                     else p) (plugins t)
     \<and> plugins (run cmp [WriteSettled 1 (WriteResponse True st2), WriteSettled 0 (WriteResponse True st1)] t)
         = map (\<lambda>p. if pid p = pid (call_plugin c1) then p\<lparr> enabled := \<not> enabled (call_plugin c1) \<rparr>
                     else if pid p = pid (call_plugin c2) then p\<lparr> enabled := \<not> enabled (call_plugin c2) \<rparr>
                     else p) (plugins t)"
proof -
  let ?s' = "step cmp (Checkbox i) s"
  from assms(1-4) have s': "?s' = handleToggle_call (plugins s ! i) s" by simp
  then have a: "updating ?s' = Some (pid (plugins s ! i))"
    and b: "inflight ?s' = inflight s @ [\<lparr> call_plugin = plugins s ! i, call_detail = detailPlugin s \<rparr>]"
    and pl: "plugins ?s' = plugins s"
    by (simp_all add: handleToggle_call_def)
  from a pl have c: "step cmp (Checkbox i) ?s' = ?s'" by simp
  from assms(5) have d: "updating (step cmp (WriteSettled k out) u) = None"
    by (simp add: settled_fields)
  from assms(7) have ne: "pid (call_plugin c2) \<noteq> pid (call_plugin c1)" by simp
  have e: "plugins (run cmp [WriteSettled 0 (WriteResponse True st1), WriteSettled 0 (WriteResponse True st2)] t)
         = map (\<lambda>p. if pid p = pid (call_plugin c1) then p\<lparr> enabled := \<not> enabled (call_plugin c1) \<rparr>
                     else if pid p = pid (call_plugin c2) then p\<lparr> enabled := \<not> enabled (call_plugin c2) \<rparr>
                     else p) (plugins t)"
    unfolding two_settled_in_order [OF assms(6)] by (rule commit_commit [OF assms(7)])
  have f: "plugins (run cmp [WriteSettled 1 (WriteResponse True st2), WriteSettled 0 (WriteResponse True st1)] t)
         = map (\<lambda>p. if pid p = pid (call_plugin c1) then p\<lparr> enabled := \<not> enabled (call_plugin c1) \<rparr>
                     else if pid p = pid (call_plugin c2) then p\<lparr> enabled := \<not> enabled (call_plugin c2) \<rparr>
                     else p) (plugins t)"
    unfolding two_settled_reversed [OF assms(6)] commit_swap [OF assms(7)]
    by (rule commit_commit [OF assms(7)])
  show ?thesis
    by (rule conjI [OF a conjI [OF b conjI [OF c conjI [OF d conjI [OF e f]]]]])
qed

theorem toggle_mark_single_slot_witness:
  "interactive detailsView \<and> viewMode detailsView = Details \<and> 0 < length (plugins detailsView)
   \<and> updating detailsView \<noteq> Some (pid (plugins detailsView ! 0))
   \<and> 0 < length (inflight togglingAB)
   \<and> pid pluginA \<noteq> pid pluginB
   \<and> updating (step localeCompare_ci (Checkbox 0) detailsView) = Some ''a''
   \<and> updating (step localeCompare_ci (WriteSettled 0 written) togglingAB) = None
   \<and> plugins (run localeCompare_ci [WriteSettled 1 written, WriteSettled 0 written] togglingAB)
       = [pluginA\<lparr> enabled := True \<rparr>, pluginB\<lparr> enabled := True \<rparr>]"
proof -
  have h: "interactive detailsView" "viewMode detailsView = Details"
    "0 < length (plugins detailsView)"
    "updating detailsView \<noteq> Some (pid (plugins detailsView ! 0))"
    "0 < length (inflight togglingAB)"
    "inflight togglingAB = [\<lparr> call_plugin = pluginA, call_detail = None \<rparr>,
                            \<lparr> call_plugin = pluginB, call_detail = None \<rparr>]"
    "pid (call_plugin \<lparr> call_plugin = pluginA, call_detail = None \<rparr>)
       \<noteq> pid (call_plugin \<lparr> call_plugin = pluginB, call_detail = None \<rparr>)"
    by (simp_all add: detailsView_eq togglingAB_eq interactive_def render_def pluginA_def pluginB_def)
  from toggle_mark_single_slot [OF h, of localeCompare_ci written "''OK''" "''OK''"] h
  show ?thesis
    by (simp add: detailsView_eq togglingAB_eq written_def pluginA_def pluginB_def)
qed

text \<open>
  Claim C5, where the code departs from it. In the details view select \<open>b\<close>, so that
  the panel is bound to \<open>b\<close>; toggle \<open>a\<close> through its checkbox; select \<open>a\<close> while
  the write is in flight, so that the panel is bound to \<open>a\<close>; let the write succeed.
  The record of \<open>a\<close> in the list is enabled, and the panel, bound to \<open>a\<close>, still holds
  the copy that is not: the continuation tests the panel of the moment of the call.
\<close>

theorem toggle_panel_stale:
  "map enabled (plugins (run localeCompare_ci
       [Click 1, Checkbox 0, Click 0, WriteSettled 0 written] detailsView)) = [True, False]
   \<and> map pid (plugins (run localeCompare_ci
       [Click 1, Checkbox 0, Click 0, WriteSettled 0 written] detailsView)) = [''a'', ''b'']
   \<and> detailPlugin (run localeCompare_ci
       [Click 1, Checkbox 0, Click 0, WriteSettled 0 written] detailsView) = Some pluginA
   \<and> pid pluginA = ''a'' \<and> \<not> enabled pluginA"
  by (simp add: detailsView_eq interactive_def render_def handleToggle_call_def handleSelect_def
      handleToggle_settled_def drop_nth_def commit_enabled_def written_def pluginA_def pluginB_def)

end
